theory Spec2Isabelle
  imports
    Main
    "HOL-Library.Finite_Map"
    "HOL-Library.Char_ord"
    "HOL-Library.List_Lexorder"
    "HOL-Library.Multiset"
begin

section \<open>Course records and key normalisation\<close>

text \<open>
  The struct \<open>Course\<close> of \<open>main.cpp\<close>: a course number, a display name and the
  ordered list of prerequisite course numbers, all byte strings.
\<close>

record Course =
  courseNumber :: string
  name :: string
  prerequisites :: "string list"

text \<open>
  \<open>::tolower\<close> in the default "C" locale (the program never calls \<open>setlocale\<close>): the
  bytes \<open>A\<close> .. \<open>Z\<close> (65 .. 90) are moved up by 32, every other byte is returned as it
  is. That includes the bytes above 127, which reach \<open>::tolower\<close> as negative \<open>char\<close>
  values and which the C library leaves unchanged.
\<close>

definition tolower :: "char \<Rightarrow> char" where
  "tolower c =
     (if 65 \<le> (of_char c :: nat) \<and> (of_char c :: nat) \<le> 90
      then char_of ((of_char c :: nat) + 32) else c)"

text \<open>\<open>toLower\<close> (both classes define the same helper): \<open>transform\<close> with \<open>::tolower\<close>.\<close>

definition toLower :: "string \<Rightarrow> string" where
  "toLower str = map tolower str"

text \<open>
  The upper-casing the lookup property speaks about; the program has no such function.
  It is the mirror image of \<open>tolower\<close>: the bytes \<open>a\<close> .. \<open>z\<close> (97 .. 122) are moved
  down by 32.
\<close>

definition toupper :: "char \<Rightarrow> char" where
  "toupper c =
     (if 97 \<le> (of_char c :: nat) \<and> (of_char c :: nat) \<le> 122
      then char_of ((of_char c :: nat) - 32) else c)"

definition toUpper :: "string \<Rightarrow> string" where
  "toUpper str = map toupper str"

section \<open>CourseHashTable\<close>

text \<open>
  \<open>unordered_map<string, Course>\<close> is a finite map with one value per key.
\<close>

record CourseHashTable =
  courseMap :: "(string, Course) fmap"

definition newCourseHashTable :: CourseHashTable where
  "newCourseHashTable = \<lparr>courseMap = fmempty\<rparr>"

text \<open>\<open>insert\<close>: \<open>courseMap[toLower(course.courseNumber)] = course\<close>.\<close>

definition insert_course :: "CourseHashTable \<Rightarrow> Course \<Rightarrow> CourseHashTable" where
  "insert_course t course =
     t\<lparr>courseMap := fmupd (toLower (courseNumber course)) course (courseMap t)\<rparr>"

text \<open>\<open>find\<close>: the stored record, or \<open>None\<close> for \<open>nullptr\<close>.\<close>

definition find_course :: "CourseHashTable \<Rightarrow> string \<Rightarrow> Course option" where
  "find_course t cn = (let lowerKey = toLower cn in fmlookup (courseMap t) lowerKey)"

definition empty_table :: "CourseHashTable \<Rightarrow> bool" where
  "empty_table t = (fmdom' (courseMap t) = {})"

definition size_table :: "CourseHashTable \<Rightarrow> nat" where
  "size_table t = card (fmdom' (courseMap t))"

section \<open>PrerequisiteGraph\<close>

record PrerequisiteGraph =
  adjacencyList :: "(string, string list) fmap"
  reverseList :: "(string, string list) fmap"

definition newPrerequisiteGraph :: PrerequisiteGraph where
  "newPrerequisiteGraph = \<lparr>adjacencyList = fmempty, reverseList = fmempty\<rparr>"

text \<open>
  \<open>m[k]\<close> on an \<open>unordered_map<string, list<string>>\<close>: the value under \<open>k\<close>; a missing
  key is first inserted with an empty list. The result is the value read and the map
  after the read.
\<close>

definition subscript ::
  "(string, string list) fmap \<Rightarrow> string \<Rightarrow> string list \<times> (string, string list) fmap" where
  "subscript m k =
     (case fmlookup m k of None \<Rightarrow> ([], fmupd k [] m) | Some v \<Rightarrow> (v, m))"

text \<open>\<open>m[k].push_back(v)\<close>.\<close>

definition push_back_at ::
  "(string, string list) fmap \<Rightarrow> string \<Rightarrow> string \<Rightarrow> (string, string list) fmap" where
  "push_back_at m k v = (let (l, m') = subscript m k in fmupd k (l @ [v]) m')"

text \<open>The loop of \<open>addCourse\<close> over \<open>course.prerequisites\<close>.\<close>

fun addCourse_loop :: "string \<Rightarrow> string list \<Rightarrow> PrerequisiteGraph \<Rightarrow> PrerequisiteGraph" where
  "addCourse_loop courseKey [] g = g"
| "addCourse_loop courseKey (prereq # rest) g =
     (let prereqKey = toLower prereq;
          g1 = g\<lparr>adjacencyList := push_back_at (adjacencyList g) courseKey prereqKey\<rparr>;
          g2 = g1\<lparr>reverseList := push_back_at (reverseList g1) prereq courseKey\<rparr>
      in addCourse_loop courseKey rest g2)"

definition addCourse :: "PrerequisiteGraph \<Rightarrow> Course \<Rightarrow> PrerequisiteGraph" where
  "addCourse g course =
     (let courseKey = toLower (courseNumber course);
          g0 = g\<lparr>adjacencyList := fmupd courseKey [] (adjacencyList g)\<rparr>
      in addCourse_loop courseKey (prerequisites course) g0)"

text \<open>
  \<open>getPrerequisites\<close> returns \<open>adjacencyList[courseKey]\<close>; the subscript may insert, so the
  graph after the call is returned too.
\<close>

definition getPrerequisites ::
  "PrerequisiteGraph \<Rightarrow> string \<Rightarrow> string list \<times> PrerequisiteGraph" where
  "getPrerequisites g cn =
     (let courseKey = toLower cn;
          (l, adj) = subscript (adjacencyList g) courseKey
      in (l, g\<lparr>adjacencyList := adj\<rparr>))"

text \<open>
  The inner loop of \<open>findAvailableCourses\<close> over \<open>adjacencyList[current]\<close>: it stops with
  \<open>false\<close> at the first prerequisite whose lower-casing differs from \<open>courseKey\<close>.
\<close>

fun allPrereqsMet :: "string \<Rightarrow> string list \<Rightarrow> bool" where
  "allPrereqsMet courseKey [] = True"
| "allPrereqsMet courseKey (prereq # rest) =
     (if toLower prereq \<noteq> courseKey then False else allPrereqsMet courseKey rest)"

text \<open>
  The \<open>while (!q.empty())\<close> loop. The queue is a list with its front at the head. The local
  map \<open>visited\<close> is kept as the set of the keys it maps to \<open>true\<close> (the \<open>false\<close> entries that
  its subscript inserts are never told apart from missing ones). \<open>adjacencyList[current]\<close>
  may insert into the graph, so the graph is threaded through the loop. The last loop,
  which pushes every not yet visited \<open>next\<close> of \<open>reverseList[current]\<close> in order, appends
  the filtered list; it runs only when \<open>find(current)\<close> succeeds, so that subscript never
  inserts.
\<close>

function bfs_loop ::
  "string \<Rightarrow> PrerequisiteGraph \<Rightarrow> string list \<Rightarrow> string set \<Rightarrow> string list
     \<Rightarrow> string list \<times> PrerequisiteGraph" where
  "bfs_loop courseKey g [] visited available = (available, g)"
| "bfs_loop courseKey g (current # q) visited available =
     (if current \<in> visited then bfs_loop courseKey g q visited available
      else
        if allPrereqsMet courseKey (fst (subscript (adjacencyList g) current))
        then bfs_loop courseKey
               (g\<lparr>adjacencyList := snd (subscript (adjacencyList g) current)\<rparr>)
               (case fmlookup (reverseList g) current of
                  None \<Rightarrow> q
                | Some nexts \<Rightarrow> q @ filter (\<lambda>next. next \<notin> insert current visited) nexts)
               (insert current visited) (available @ [current])
        else bfs_loop courseKey
               (g\<lparr>adjacencyList := snd (subscript (adjacencyList g) current)\<rparr>)
               q (insert current visited) available)"
  by pat_completeness auto
termination
proof (relation "measures
    [\<lambda>(courseKey, g, q, visited, available).
        card ((set q \<union> \<Union> (set ` fmran' (reverseList g))) - visited),
     \<lambda>(courseKey, g, q, visited, available). length q]",
    goal_cases)
  case 1
  show ?case by simp
next
  case (2 courseKey g current q visited available)
  have "(insert current (set q) \<union> \<Union> (set ` fmran' (reverseList g))) - visited
      = (set q \<union> \<Union> (set ` fmran' (reverseList g))) - visited"
    using 2 by auto
  then show ?case by simp
next
  case (3 courseKey g current q visited available)
  let ?V = "\<Union> (set ` fmran' (reverseList g))"
  let ?q' = "case fmlookup (reverseList g) current of
               None \<Rightarrow> q
             | Some nexts \<Rightarrow> q @ filter (\<lambda>next. next \<notin> insert current visited) nexts"
  have fin: "finite ((insert current (set q) \<union> ?V) - visited)"
    by (simp add: fmran'_alt_def)
  have "set ?q' \<subseteq> set q \<union> ?V"
    by (auto split: option.splits intro: fmran'I)
  then have "(set ?q' \<union> ?V) - insert current visited
      \<subset> (insert current (set q) \<union> ?V) - visited"
    using 3 by auto
  then have "card ((set ?q' \<union> ?V) - insert current visited)
      < card ((insert current (set q) \<union> ?V) - visited)"
    using fin by (rule psubset_card_mono[rotated])
  then show ?case by simp
next
  case (4 courseKey g current q visited available)
  let ?V = "\<Union> (set ` fmran' (reverseList g))"
  have fin: "finite ((insert current (set q) \<union> ?V) - visited)"
    by (simp add: fmran'_alt_def)
  have "(set q \<union> ?V) - insert current visited
      \<subset> (insert current (set q) \<union> ?V) - visited"
    using 4 by auto
  then have "card ((set q \<union> ?V) - insert current visited)
      < card ((insert current (set q) \<union> ?V) - visited)"
    using fin by (rule psubset_card_mono[rotated])
  then show ?case by simp
qed

text \<open>
  \<open>findAvailableCourses\<close>. The \<open>hashTable\<close> parameter is never used by the body. When
  \<open>find(courseKey)\<close> fails the empty vector is returned at once; otherwise the queue starts
  as a copy of \<open>reverseList[courseKey]\<close>.
\<close>

definition findAvailableCourses ::
  "PrerequisiteGraph \<Rightarrow> string \<Rightarrow> CourseHashTable \<Rightarrow> string list \<times> PrerequisiteGraph" where
  "findAvailableCourses g completedCourse hashTable =
     (let courseKey = toLower completedCourse in
      case fmlookup (reverseList g) courseKey of
        None \<Rightarrow> ([], g)
      | Some dependents \<Rightarrow> bfs_loop courseKey g dependents {} [])"


section \<open>MergeSort\<close>

text \<open>
  \<open>operator<=\<close> on \<open>std::string\<close> compares the bytes as unsigned values,
  lexicographically, a proper prefix being smaller: the order of \<open>char list\<close> here.
  The indices \<open>left\<close>, \<open>mid\<close>, \<open>right\<close> are C++ \<open>int\<close>s and are kept as integers; inside
  a vector (shorter than \<open>2^31\<close>) none of the expressions below leaves the 32-bit range.
  The counters \<open>i\<close>, \<open>j\<close>, \<open>k\<close> only count upwards from \<open>0\<close> and from \<open>left\<close>.
\<close>

text \<open>The first \<open>while\<close> loop of \<open>merge\<close>: both halves still have an element.\<close>

function merge_while ::
  "Course list \<Rightarrow> Course list \<Rightarrow> nat \<Rightarrow> nat \<Rightarrow> Course list \<Rightarrow> nat \<Rightarrow> nat \<Rightarrow> nat
     \<Rightarrow> Course list \<times> nat \<times> nat \<times> nat" where
  "merge_while leftArray rightArray n1 n2 courses i j k =
     (if i < n1 \<and> j < n2 then
        (if courseNumber (leftArray ! i) \<le> courseNumber (rightArray ! j)
         then merge_while leftArray rightArray n1 n2 (courses[k := leftArray ! i]) (i + 1) j (k + 1)
         else merge_while leftArray rightArray n1 n2 (courses[k := rightArray ! j]) i (j + 1) (k + 1))
      else (courses, i, j, k))"
  by pat_completeness auto
termination
  by (relation "measure (\<lambda>(leftArray, rightArray, n1, n2, courses, i, j, k). (n1 - i) + (n2 - j))")
     auto

text \<open>
  The second and the third \<open>while\<close> loop have the same shape: the rest of one temporary
  array is copied back.
\<close>

function copy_remaining ::
  "Course list \<Rightarrow> nat \<Rightarrow> Course list \<Rightarrow> nat \<Rightarrow> nat \<Rightarrow> Course list \<times> nat" where
  "copy_remaining array n courses i k =
     (if i < n then copy_remaining array n (courses[k := array ! i]) (i + 1) (k + 1)
      else (courses, k))"
  by pat_completeness auto
termination
  by (relation "measure (\<lambda>(array, n, courses, i, k). n - i)") auto

text \<open>
  \<open>merge\<close>. A negative \<open>n1\<close> or \<open>n2\<close> makes the vector constructor throw, and when at
  least one element is to be copied every index from \<open>left\<close> to \<open>right\<close> is read and
  written, which is undefined outside the vector: both are \<open>None\<close>.
\<close>

definition merge :: "Course list \<Rightarrow> int \<Rightarrow> int \<Rightarrow> int \<Rightarrow> Course list option" where
  "merge courses left mid right =
     (let n1 = mid - left + 1;
          n2 = right - mid
      in if n1 < 0 \<or> n2 < 0 then None
         else if 0 < n1 + n2 \<and> (left < 0 \<or> int (length courses) \<le> right) then None
         else
           let leftArray = map (\<lambda>i. courses ! nat (left + int i)) [0..<nat n1];
               rightArray = map (\<lambda>j. courses ! nat (mid + 1 + int j)) [0..<nat n2];
               (courses1, i, j, k) =
                  merge_while leftArray rightArray (nat n1) (nat n2) courses 0 0 (nat left);
               (courses2, k2) = copy_remaining leftArray (nat n1) courses1 i k;
               (courses3, k3) = copy_remaining rightArray (nat n2) courses2 j k2
           in Some courses3)"

text \<open>
  The three \<open>while\<close> statements of \<open>merge\<close> in sequence, started in any state of the
  counters; the proofs follow them through this function.
\<close>

definition merge_body ::
  "Course list \<Rightarrow> Course list \<Rightarrow> nat \<Rightarrow> nat \<Rightarrow> Course list \<Rightarrow> nat \<Rightarrow> nat \<Rightarrow> nat
     \<Rightarrow> Course list" where
  "merge_body leftArray rightArray n1 n2 courses i j k =
     (let (courses1, i', j', k') = merge_while leftArray rightArray n1 n2 courses i j k;
          (courses2, k2) = copy_remaining leftArray n1 courses1 i' k';
          (courses3, k3) = copy_remaining rightArray n2 courses2 j' k2
      in courses3)"

text \<open>
  \<open>mergeSort\<close>. The division is only evaluated for \<open>left < right\<close>, where C++'s truncating
  \<open>/\<close> and \<open>div\<close> agree.
\<close>

function mergeSort :: "Course list \<Rightarrow> int \<Rightarrow> int \<Rightarrow> Course list option" where
  "mergeSort courses left right =
     (if left < right then
        (case mergeSort courses left (left + (right - left) div 2) of
           None \<Rightarrow> None
         | Some courses1 \<Rightarrow>
             (case mergeSort courses1 (left + (right - left) div 2 + 1) right of
                None \<Rightarrow> None
              | Some courses2 \<Rightarrow> merge courses2 left (left + (right - left) div 2) right))
      else Some courses)"
  by pat_completeness auto
termination
  by (relation "measure (\<lambda>(courses, left, right). nat (right - left))") auto

section \<open>Loading a catalog\<close>

text \<open>
  \<open>format\<close> with its default delimiter \<open>","\<close>: the fields between the commas, in order;
  a string without a comma is one field.
\<close>

fun format_from :: "string \<Rightarrow> string \<Rightarrow> string list" where
  "format_from field [] = [field]"
| "format_from field (c # s) =
     (if c = CHR '','' then field # format_from [] s else format_from (field @ [c]) s)"

definition format :: "string \<Rightarrow> string list" where
  "format s = format_from [] s"

text \<open>The three globals of \<open>main.cpp\<close>.\<close>

record Globals =
  courseHashTable :: CourseHashTable
  prereqGraph :: PrerequisiteGraph
  dataLoaded :: bool

text \<open>
  What a load can run into: \<open>info[1]\<close> is read although the line has no comma, or an
  index of the sort leaves the vector. Both are undefined behaviour in C++.
\<close>

datatype error = OutOfRange

text \<open>The message a load prints.\<close>

datatype report = CouldNotAccess | AppearsEmpty | SuccessfullyLoaded

text \<open>
  The \<open>while (getline(fin, line))\<close> loop over the lines the stream still delivers; the
  state is \<open>courses\<close>, the two global structures and the flag \<open>entered\<close>.
\<close>

fun load_loop ::
  "string list \<Rightarrow> Course list \<times> CourseHashTable \<times> PrerequisiteGraph \<times> bool
     \<Rightarrow> error + Course list \<times> CourseHashTable \<times> PrerequisiteGraph \<times> bool" where
  "load_loop [] st = Inr st"
| "load_loop (line # rest) (courses, table, graph, entered) =
     (if line = ''-1'' then Inr (courses, table, graph, entered)
      else
        (case format line of
           number # nm # prereqs \<Rightarrow>
             (let course = \<lparr>courseNumber = number, name = nm, prerequisites = prereqs\<rparr>
              in load_loop rest
                   (courses @ [course], insert_course table course, addCourse graph course, True))
         | _ \<Rightarrow> Inl OutOfRange))"

text \<open>The conversion of \<open>courses.size() - 1\<close> to the \<open>int\<close> parameter \<open>right\<close>.\<close>

definition int_of_size_t :: "nat \<Rightarrow> int" where
  "int_of_size_t n = (int n + 2 ^ 31) mod 2 ^ 32 - 2 ^ 31"

text \<open>
  \<open>loadCoursesFile\<close>. The file is what the stream delivers: \<open>None\<close> when \<open>courses.txt\<close>
  cannot be opened, otherwise its lines. Both globals are replaced by fresh structures
  before the first line is read. The result is the returned vector, the message printed
  and the globals after the call.
\<close>

definition loadCoursesFile ::
  "string list option \<Rightarrow> Globals \<Rightarrow> error + Course list \<times> report \<times> Globals" where
  "loadCoursesFile file s =
     (case load_loop (case file of None \<Rightarrow> [] | Some lines \<Rightarrow> lines)
             ([], newCourseHashTable, newPrerequisiteGraph, False) of
        Inl e \<Rightarrow> Inl e
      | Inr (courses, table, graph, entered) \<Rightarrow>
          (let s1 = s\<lparr>courseHashTable := table, prereqGraph := graph\<rparr>
           in if \<not> entered then Inr (courses, CouldNotAccess, s1\<lparr>dataLoaded := False\<rparr>)
              else if length courses = 0 then Inr (courses, AppearsEmpty, s1\<lparr>dataLoaded := False\<rparr>)
              else
                (case mergeSort courses 0 (int_of_size_t (length courses - 1)) of
                   None \<Rightarrow> Inl OutOfRange
                 | Some sorted_courses \<Rightarrow>
                     Inr (sorted_courses, SuccessfullyLoaded, s1\<lparr>dataLoaded := True\<rparr>))))"

section \<open>Example catalogs\<close>

text \<open>The graph after the records of a catalog were added in order, as a load does.\<close>

definition graph_of :: "Course list \<Rightarrow> PrerequisiteGraph" where
  "graph_of courses = foldl addCourse newPrerequisiteGraph courses"

text \<open>The three records of the reachability example, prerequisites in upper case.\<close>

definition p5_catalog :: "Course list" where
  "p5_catalog =
     [\<lparr>courseNumber = ''CSCI200'', name = ''Data Structures'', prerequisites = [''CSCI101'']\<rparr>,
      \<lparr>courseNumber = ''CSCI300'', name = ''Introduction to Algorithms'',
         prerequisites = [''CSCI200'', ''MATH201'']\<rparr>,
      \<lparr>courseNumber = ''CSCI350'', name = ''Operating Systems'', prerequisites = [''CSCI300'']\<rparr>]"

text \<open>A chain of three courses, everything written in lower case.\<close>

definition chain_catalog :: "Course list" where
  "chain_catalog =
     [\<lparr>courseNumber = ''csci200'', name = ''Data Structures'', prerequisites = [''csci101'']\<rparr>,
      \<lparr>courseNumber = ''csci300'', name = ''Introduction to Algorithms'',
         prerequisites = [''csci200'']\<rparr>]"

text \<open>The chain, with the last course added a second time without prerequisites.\<close>

definition readded_catalog :: "Course list" where
  "readded_catalog =
     [\<lparr>courseNumber = ''csci200'', name = ''Data Structures'', prerequisites = [''csci101'']\<rparr>,
      \<lparr>courseNumber = ''csci300'', name = ''Introduction to Algorithms'',
         prerequisites = [''csci200'']\<rparr>,
      \<lparr>courseNumber = ''csci300'', name = ''Introduction to Algorithms'', prerequisites = []\<rparr>]"

text \<open>The globals at program start, and after a first successful load of one record.\<close>

definition init_globals :: Globals where
  "init_globals = \<lparr>courseHashTable = newCourseHashTable, prereqGraph = newPrerequisiteGraph, dataLoaded = False\<rparr>"

definition loaded_globals :: Globals where
  "loaded_globals =
     (case loadCoursesFile (Some [''CSCI100,Introduction to Computer Science'']) init_globals of
        Inl e \<Rightarrow> init_globals
      | Inr (courses, r, s) \<Rightarrow> s)"

text \<open>Five records with a repeated course number, for the sort.\<close>

definition sort_example :: "Course list" where
  "sort_example =
     [\<lparr>courseNumber = ''MATH201'', name = ''Discrete Mathematics'', prerequisites = []\<rparr>,
      \<lparr>courseNumber = ''CSCI300'', name = ''Introduction to Algorithms'',
         prerequisites = [''CSCI200'', ''MATH201'']\<rparr>,
      \<lparr>courseNumber = ''CSCI100'', name = ''Introduction to Computer Science'',
         prerequisites = []\<rparr>,
      \<lparr>courseNumber = ''CSCI100'', name = ''Computer Science I'', prerequisites = []\<rparr>,
      \<lparr>courseNumber = ''CSCI101'', name = ''Introduction to Programming in C++'',
         prerequisites = [''CSCI100'']\<rparr>]"

section \<open>Properties of the store and of addCourse\<close>

lemma tolower_idem: "tolower (tolower c) = tolower c"
  by (simp add: tolower_def)

lemma tolower_toupper: "tolower (toupper c) = tolower c"
proof (cases "97 \<le> (of_char c :: nat) \<and> (of_char c :: nat) \<le> 122")
  case True
  define n where "n = (of_char c :: nat)"
  have n: "97 \<le> n" "n \<le> 122" using True by (simp_all add: n_def)
  have up: "toupper c = char_of (n - 32)" using True by (simp add: toupper_def n_def)
  have m: "65 \<le> n - 32" "n - 32 \<le> 90" using n by arith+
  have "(of_char (char_of (n - 32)) :: nat) = n - 32" using n by simp
  then have "tolower (char_of (n - 32)) = char_of (n - 32 + 32)"
    using m by (simp add: tolower_def)
  also have "\<dots> = c" using n by (simp add: n_def)
  also have "\<dots> = tolower c" using n by (simp add: tolower_def n_def)
  finally show ?thesis by (simp add: up)
next
  case False
  then have "toupper c = c" by (auto simp: toupper_def)
  then show ?thesis by simp
qed

lemma toLower_idem: "toLower (toLower s) = toLower s"
  by (simp add: toLower_def tolower_idem)

lemma toLower_toUpper: "toLower (toUpper s) = toLower s"
  by (simp add: toLower_def toUpper_def tolower_toupper)

lemma find_course_toLower: "find_course t (toLower cn) = find_course t cn"
  by (simp add: find_course_def toLower_idem)

lemma find_course_toUpper: "find_course t (toUpper cn) = find_course t cn"
  by (simp add: find_course_def toLower_toUpper)

text \<open>
  Claim C6. Lookup is case-insensitive: for every table and every identifier \<open>X\<close>,
  \<open>find\<close> gives the same answer for \<open>X\<close>, for \<open>X\<close> in upper case and for \<open>X\<close> in
  lower case (the same stored record, or absent each time).
\<close>

theorem C6_find_case_insensitive:
  "find_course t X = find_course t (toUpper X)
   \<and> find_course t (toUpper X) = find_course t (toLower X)"
  by (simp add: find_course_toLower find_course_toUpper)

text \<open>
  Claim C7. After two inserts whose course numbers agree up to case, looking up
  either number gives the record inserted last, the set of keys is the one after the
  first insert, and the size has not grown.
\<close>

theorem C7_insert_overwrites:
  assumes "toLower (courseNumber a) = toLower (courseNumber b)"
  shows "find_course (insert_course (insert_course t a) b) (courseNumber a) = Some b
       \<and> find_course (insert_course (insert_course t a) b) (courseNumber b) = Some b
       \<and> fmdom' (courseMap (insert_course (insert_course t a) b))
           = fmdom' (courseMap (insert_course t a))
       \<and> size_table (insert_course (insert_course t a) b) = size_table (insert_course t a)"
  using assms by (simp add: find_course_def insert_course_def size_table_def)

theorem C7_insert_overwrites_witness:
  "toLower (courseNumber
       \<lparr>courseNumber = ''CSCI200'', name = ''Data Structures'', prerequisites = [''CSCI101'']\<rparr>)
     = toLower (courseNumber
       \<lparr>courseNumber = ''csci200'', name = ''Data Structures II'', prerequisites = []\<rparr>)
   \<and> find_course (insert_course (insert_course newCourseHashTable
          \<lparr>courseNumber = ''CSCI200'', name = ''Data Structures'', prerequisites = [''CSCI101'']\<rparr>)
          \<lparr>courseNumber = ''csci200'', name = ''Data Structures II'', prerequisites = []\<rparr>)
        ''CSCI200''
       = Some \<lparr>courseNumber = ''csci200'', name = ''Data Structures II'', prerequisites = []\<rparr>
   \<and> size_table (insert_course (insert_course newCourseHashTable
          \<lparr>courseNumber = ''CSCI200'', name = ''Data Structures'', prerequisites = [''CSCI101'']\<rparr>)
          \<lparr>courseNumber = ''csci200'', name = ''Data Structures II'', prerequisites = []\<rparr>)
       = 1"
proof -
  let ?a = "\<lparr>courseNumber = ''CSCI200'', name = ''Data Structures'',
              prerequisites = [''CSCI101'']\<rparr>"
  let ?b = "\<lparr>courseNumber = ''csci200'', name = ''Data Structures II'', prerequisites = []\<rparr>"
  have h: "toLower (courseNumber ?a) = toLower (courseNumber ?b)" by code_simp
  have one: "size_table (insert_course newCourseHashTable ?a) = 1"
    by (simp add: size_table_def insert_course_def newCourseHashTable_def)
  from C7_insert_overwrites [OF h, of newCourseHashTable] h one show ?thesis by simp
qed

subsection \<open>addCourse\<close>

lemma lookup_push_back_at:
  "fmlookup (push_back_at m k v) k' =
     (if k' = k then Some (fst (subscript m k) @ [v]) else fmlookup m k')"
  by (simp add: push_back_at_def subscript_def split: option.splits)

lemma addCourse_loop_reverse_keeps:
  "fmlookup (reverseList g) p = Some l \<Longrightarrow> x \<in> set l \<Longrightarrow>
   \<exists>l'. fmlookup (reverseList (addCourse_loop ck ps g)) p = Some l' \<and> x \<in> set l'"
proof (induction ps arbitrary: g l)
  case Nil
  then show ?case by simp
next
  case (Cons q ps)
  let ?g2 = "g\<lparr>adjacencyList := push_back_at (adjacencyList g) ck (toLower q),
               reverseList := push_back_at (reverseList g) q ck\<rparr>"
  have "\<exists>l2. fmlookup (reverseList ?g2) p = Some l2 \<and> x \<in> set l2"
    using Cons.prems by (auto simp: lookup_push_back_at subscript_def)
  then obtain l2 where "fmlookup (reverseList ?g2) p = Some l2" "x \<in> set l2" by blast
  from Cons.IH[OF this] show ?case by (simp add: Let_def)
qed

lemma addCourse_loop_reverse_has:
  "p \<in> set ps \<Longrightarrow>
   \<exists>l. fmlookup (reverseList (addCourse_loop ck ps g)) p = Some l \<and> ck \<in> set l"
proof (induction ps arbitrary: g)
  case Nil
  then show ?case by simp
next
  case (Cons q ps)
  let ?g2 = "g\<lparr>adjacencyList := push_back_at (adjacencyList g) ck (toLower q),
               reverseList := push_back_at (reverseList g) q ck\<rparr>"
  show ?case
  proof (cases "p = q")
    case True
    have "fmlookup (reverseList ?g2) p = Some (fst (subscript (reverseList g) q) @ [ck])"
      using True by (simp add: lookup_push_back_at)
    from addCourse_loop_reverse_keeps[OF this, of ck ck ps] show ?thesis by (simp add: Let_def)
  next
    case False
    then have "p \<in> set ps" using Cons.prems by simp
    from Cons.IH[OF this, of ?g2] show ?thesis by (simp add: Let_def)
  qed
qed

lemma addCourse_loop_reverse_dom:
  "fmdom' (reverseList (addCourse_loop ck ps g)) = fmdom' (reverseList g) \<union> set ps"
proof (induction ps arbitrary: g)
  case Nil
  then show ?case by simp
next
  case (Cons q ps)
  have "fmdom' (push_back_at (reverseList g) q ck) = insert q (fmdom' (reverseList g))"
    by (auto simp: push_back_at_def subscript_def split: option.splits)
  then show ?case using Cons.IH by (simp add: Let_def)
qed

lemma addCourse_loop_adjacency:
  "fmlookup (adjacencyList g) ck = Some l \<Longrightarrow>
   fmlookup (adjacencyList (addCourse_loop ck ps g)) k =
     (if k = ck then Some (l @ map toLower ps) else fmlookup (adjacencyList g) k)"
proof (induction ps arbitrary: g l)
  case Nil
  then show ?case by simp
next
  case (Cons q ps)
  let ?g2 = "g\<lparr>adjacencyList := push_back_at (adjacencyList g) ck (toLower q),
               reverseList := push_back_at (reverseList g) q ck\<rparr>"
  have "fmlookup (adjacencyList ?g2) ck = Some (l @ [toLower q])"
    using Cons.prems by (simp add: lookup_push_back_at subscript_def)
  from Cons.IH[OF this] show ?case
    by (simp add: Let_def lookup_push_back_at)
qed

text \<open>
  Claim C2. After \<open>addCourse\<close>, for every prerequisite \<open>p\<close> of the record the reverse map
  has an entry under \<open>p\<close> exactly as written, and that entry contains the lower-cased
  course number; the forward map holds the lower-cased prerequisites under the
  lower-cased course number; and the keys added to the reverse map are the
  prerequisite strings as written, nothing else.
\<close>

theorem C2_addCourse_reverse_key_verbatim:
  assumes "p \<in> set (prerequisites course)"
  shows "(\<exists>l. fmlookup (reverseList (addCourse g course)) p = Some l
            \<and> toLower (courseNumber course) \<in> set l)
       \<and> fmlookup (adjacencyList (addCourse g course)) (toLower (courseNumber course))
           = Some (map toLower (prerequisites course))
       \<and> fmdom' (reverseList (addCourse g course))
           = fmdom' (reverseList g) \<union> set (prerequisites course)"
proof -
  let ?ck = "toLower (courseNumber course)"
  let ?g0 = "g\<lparr>adjacencyList := fmupd ?ck [] (adjacencyList g)\<rparr>"
  have a: "addCourse g course = addCourse_loop ?ck (prerequisites course) ?g0"
    by (simp add: addCourse_def Let_def)
  have "fmlookup (adjacencyList ?g0) ?ck = Some []" by simp
  from addCourse_loop_adjacency[OF this, of "prerequisites course" ?ck]
  have fwd: "fmlookup (adjacencyList (addCourse g course)) ?ck
      = Some (map toLower (prerequisites course))"
    by (simp add: a)
  from addCourse_loop_reverse_has[OF assms, of ?ck ?g0]
  have rev: "\<exists>l. fmlookup (reverseList (addCourse g course)) p = Some l \<and> ?ck \<in> set l"
    by (simp add: a)
  have dom: "fmdom' (reverseList (addCourse g course))
      = fmdom' (reverseList g) \<union> set (prerequisites course)"
    by (simp add: a addCourse_loop_reverse_dom)
  from fwd rev dom show ?thesis by blast
qed

theorem C2_addCourse_reverse_key_verbatim_witness:
  "''CSCI101'' \<in> set (prerequisites
       \<lparr>courseNumber = ''CSCI200'', name = ''Data Structures'', prerequisites = [''CSCI101'']\<rparr>)
   \<and> (\<exists>l. fmlookup (reverseList (addCourse newPrerequisiteGraph
            \<lparr>courseNumber = ''CSCI200'', name = ''Data Structures'',
               prerequisites = [''CSCI101'']\<rparr>)) ''CSCI101'' = Some l
          \<and> ''csci200'' \<in> set l)
   \<and> fmdom' (reverseList (addCourse newPrerequisiteGraph
            \<lparr>courseNumber = ''CSCI200'', name = ''Data Structures'',
               prerequisites = [''CSCI101'']\<rparr>)) = {''CSCI101''}"
proof -
  let ?c = "\<lparr>courseNumber = ''CSCI200'', name = ''Data Structures'',
              prerequisites = [''CSCI101'']\<rparr>"
  have h: "''CSCI101'' \<in> set (prerequisites ?c)" by simp
  have k: "toLower (courseNumber ?c) = ''csci200''" by code_simp
  from C2_addCourse_reverse_key_verbatim [OF h, of newPrerequisiteGraph] k h
  show ?thesis by (simp add: newPrerequisiteGraph_def)
qed

subsection \<open>findAvailableCourses\<close>

lemma allPrereqsMet_iff: "allPrereqsMet ck ps \<longleftrightarrow> (\<forall>p \<in> set ps. toLower p = ck)"
  by (induction ps) auto

lemma lookup_snd_subscript:
  "fmlookup (snd (subscript m k)) k' =
     (if k' = k \<and> fmlookup m k = None then Some [] else fmlookup m k')"
  by (simp add: subscript_def split: option.splits)

lemma fst_subscript_snd_subscript:
  "fst (subscript (snd (subscript m k)) k') = fst (subscript m k')"
  by (simp add: subscript_def split: option.splits)


lemma bfs_loop_adjacency_keeps:
  "fmlookup (adjacencyList g) k = Some v \<Longrightarrow>
   fmlookup (adjacencyList (snd (bfs_loop ck g q vis av))) k = Some v"
proof (induction ck g q vis av rule: bfs_loop.induct)
  case (1 ck g vis av)
  then show ?case by simp
next
  case (2 ck g current q vis av)
  have "fmlookup (snd (subscript (adjacencyList g) current)) k = Some v"
    using "2.prems" by (auto simp: lookup_snd_subscript)
  then show ?case using 2 by simp
qed


lemma bfs_loop_touches_queue:
  "d \<in> set q \<Longrightarrow> d \<notin> vis \<Longrightarrow> d \<in> fmdom' (adjacencyList (snd (bfs_loop ck g q vis av)))"
proof (induction ck g q vis av rule: bfs_loop.induct)
  case (1 ck g vis av)
  then show ?case by simp
next
  case (2 ck g current q vis av)
  let ?g' = "g\<lparr>adjacencyList := snd (subscript (adjacencyList g) current)\<rparr>"
  show ?case
  proof (cases "current \<in> vis")
    case True
    with 2 show ?thesis by auto
  next
    case False
    show ?thesis
    proof (cases "d = current")
      case True
      obtain v where v: "fmlookup (adjacencyList ?g') current = Some v"
        by (cases "fmlookup (adjacencyList g) current") (auto simp: lookup_snd_subscript)
      from bfs_loop_adjacency_keeps[OF v] show ?thesis
        using False True by (auto intro!: fmdom'I)
    next
      case ne: False
      then have dq: "d \<in> set q" and dv: "d \<notin> insert current vis" using "2.prems" by auto
      show ?thesis
      proof (cases "allPrereqsMet ck (fst (subscript (adjacencyList g) current))")
        case True
        have "d \<in> set (case fmlookup (reverseList g) current of None \<Rightarrow> q
                 | Some nexts \<Rightarrow> q @ filter (\<lambda>next. next \<notin> insert current vis) nexts)"
          using dq by (simp split: option.splits)
        from "2.IH"(2)[OF False True this dv] show ?thesis using False True by simp
      next
        case nm: False
        from "2.IH"(3)[OF False nm dq dv] show ?thesis using False nm by simp
      qed
    qed
  qed
qed

lemma bfs_loop_available:
  "c \<in> set (fst (bfs_loop ck g q vis av)) \<Longrightarrow>
   c \<in> set av \<or> allPrereqsMet ck (fst (subscript (adjacencyList g) c))"
proof (induction ck g q vis av rule: bfs_loop.induct)
  case (1 ck g vis av)
  then show ?case by simp
next
  case (2 ck g current q vis av)
  let ?g' = "g\<lparr>adjacencyList := snd (subscript (adjacencyList g) current)\<rparr>"
  have same: "fst (subscript (adjacencyList ?g') c) = fst (subscript (adjacencyList g) c)"
    by (simp add: fst_subscript_snd_subscript)
  show ?case
  proof (cases "current \<in> vis")
    case True
    with 2 show ?thesis by simp
  next
    case False
    show ?thesis
    proof (cases "allPrereqsMet ck (fst (subscript (adjacencyList g) current))")
      case True
      from "2.IH"(2)[OF False True] "2.prems" same show ?thesis
        using False True by auto
    next
      case nm: False
      from "2.IH"(3)[OF False nm] "2.prems" same show ?thesis
        using False nm by auto
    qed
  qed
qed

lemma findAvailableCourses_all_prereqs:
  assumes "c \<in> set (fst (findAvailableCourses g completed ht))"
    and "p \<in> set (fst (subscript (adjacencyList g) c))"
  shows "toLower p = toLower completed"
proof -
  from assms(1) obtain ds where
    "c \<in> set (fst (bfs_loop (toLower completed) g ds {} []))"
    by (auto simp: findAvailableCourses_def Let_def split: option.splits)
  from bfs_loop_available[OF this] assms(2) show ?thesis
    by (simp add: allPrereqsMet_iff)
qed

text \<open>
  Claim C1. On the catalog of the reachability example, with the prerequisites written
  in upper case, \<open>findAvailableCourses\<close> for \<open>CSCI101\<close> returns the empty vector: the
  dependent \<open>csci200\<close> is stored in the reverse map under \<open>CSCI101\<close> as written, the lookup
  uses \<open>csci101\<close>, and nothing is found, although every entry of the forward list of
  \<open>csci200\<close> equals the lower-cased completed course. For \<open>CSCI200\<close> the result is empty
  too.
\<close>

theorem C1_availableAfter_uppercase_prerequisite_missed:
  "fst (findAvailableCourses (graph_of p5_catalog) ''CSCI101'' newCourseHashTable) = []
   \<and> fmlookup (reverseList (graph_of p5_catalog)) ''CSCI101'' = Some [''csci200'']
   \<and> fmlookup (reverseList (graph_of p5_catalog)) ''csci101'' = None
   \<and> fmlookup (adjacencyList (graph_of p5_catalog)) ''csci200'' = Some [''csci101'']
   \<and> fst (findAvailableCourses (graph_of p5_catalog) ''CSCI200'' newCourseHashTable) = []"
  by code_simp

subsection \<open>What the traversal returns\<close>

text \<open>
  Every dequeued course is tested against the completed course alone (lemma
  \<open>findAvailableCourses_all_prereqs\<close>): on the chain \<open>csci101\<close>, \<open>csci200\<close>, \<open>csci300\<close> the
  course \<open>csci300\<close>, whose forward list is \<open>[csci200]\<close>, is enqueued when \<open>csci200\<close> is found
  available and is then not returned.
\<close>

lemma chain_last_course_not_returned:
  "fst (findAvailableCourses (graph_of chain_catalog) ''csci101'' newCourseHashTable)
     = [''csci200'']
   \<and> fmlookup (adjacencyList (graph_of chain_catalog)) ''csci300'' = Some [''csci200'']"
  by code_simp

text \<open>
  The cascade does return a course whose forward list is empty: in \<open>readded_catalog\<close> the
  course \<open>csci300\<close> was added a second time without prerequisites, which emptied its
  forward list and left it in the reverse list of \<open>csci200\<close>.
\<close>

lemma cascade_reaches_readded_course:
  "fst (findAvailableCourses (graph_of readded_catalog) ''csci101'' newCourseHashTable)
     = [''csci200'', ''csci300'']
   \<and> fmlookup (adjacencyList (graph_of readded_catalog)) ''csci300'' = Some []
   \<and> fmlookup (reverseList (graph_of readded_catalog)) ''csci200'' = Some [''csci300'']"
  by code_simp


subsection \<open>What the queries change\<close>












text \<open>
  The insertion by \<open>getPrerequisites\<close> on the fresh graph and on the graph of the
  reachability example, where \<open>csci101\<close> was never added.
\<close>

lemma getPrerequisites_inserts_on_loaded_graph:
  "fmlookup (adjacencyList (graph_of p5_catalog)) ''csci101'' = None
   \<and> getPrerequisites newPrerequisiteGraph ''CSCI101''
       = ([], \<lparr>adjacencyList = fmupd ''csci101'' [] fmempty, reverseList = fmempty\<rparr>)
   \<and> fst (getPrerequisites (graph_of p5_catalog) ''CSCI101'') = []
   \<and> fmlookup (adjacencyList (snd (getPrerequisites (graph_of p5_catalog) ''CSCI101'')))
        ''csci101'' = Some []"
proof -
  have l: "toLower ''CSCI101'' = ''csci101''" by code_simp
  have 1: "fmlookup (adjacencyList (graph_of p5_catalog)) ''csci101'' = None" by code_simp
  have 2: "getPrerequisites newPrerequisiteGraph ''CSCI101''
       = ([], \<lparr>adjacencyList = fmupd ''csci101'' [] fmempty, reverseList = fmempty\<rparr>)"
    by (simp add: getPrerequisites_def l subscript_def newPrerequisiteGraph_def)
  have 3: "fst (getPrerequisites (graph_of p5_catalog) ''CSCI101'') = []"
    by (simp add: getPrerequisites_def l subscript_def 1 split: prod.splits)
  have 4: "fmlookup (adjacencyList (snd (getPrerequisites (graph_of p5_catalog) ''CSCI101'')))
        ''csci101'' = Some []"
    by (simp add: getPrerequisites_def l subscript_def 1 split: prod.splits)
  from 1 2 3 4 show ?thesis by blast
qed

subsection \<open>Loading\<close>

text \<open>
  After a successful load of \<open>CSCI100\<close>, a load that cannot open the file leaves the
  table without \<open>CSCI100\<close>: the earlier catalog is not kept.
\<close>

theorem C4_failed_load_discards_counterexample:
  "find_course (courseHashTable loaded_globals) ''CSCI100''
     = Some \<lparr>courseNumber = ''CSCI100'', name = ''Introduction to Computer Science'', prerequisites = []\<rparr>
   \<and> dataLoaded loaded_globals
   \<and> (case loadCoursesFile None loaded_globals of
        Inl e \<Rightarrow> False
      | Inr (courses, r, s) \<Rightarrow>
          courses = [] \<and> r = CouldNotAccess \<and> \<not> dataLoaded s
          \<and> find_course (courseHashTable s) ''CSCI100'' = None)"
  by code_simp

text \<open>
  Claim C4, as the code has it. Both structures are replaced by empty ones before the
  first line is read: when no record is read (the file cannot be opened, it has no line,
  or its first line is \<open>-1\<close>), the load returns the empty vector, prints that the file
  could not be accessed, and leaves an empty table, an empty graph and \<open>dataLoaded\<close>
  false, whatever was loaded before.
\<close>

theorem C4_failed_load_resets:
  assumes "file = None \<or> file = Some [] \<or> (\<exists>rest. file = Some (''-1'' # rest))"
  shows "loadCoursesFile file s
       = Inr ([], CouldNotAccess,
              s\<lparr>courseHashTable := newCourseHashTable, prereqGraph := newPrerequisiteGraph,
                dataLoaded := False\<rparr>)"
  using assms by (auto simp: loadCoursesFile_def)

theorem C4_failed_load_resets_witness:
  "((None :: string list option) = None \<or> (None :: string list option) = Some []
      \<or> (\<exists>rest. (None :: string list option) = Some (''-1'' # rest)))
   \<and> loadCoursesFile None loaded_globals
       = Inr ([], CouldNotAccess,
              loaded_globals\<lparr>courseHashTable := newCourseHashTable,
                prereqGraph := newPrerequisiteGraph, dataLoaded := False\<rparr>)"
proof -
  have h: "(None :: string list option) = None \<or> (None :: string list option) = Some []
      \<or> (\<exists>rest. (None :: string list option) = Some (''-1'' # rest))" by simp
  from C4_failed_load_resets [OF h, of loaded_globals] h show ?thesis by simp
qed

section \<open>Properties of MergeSort\<close>

text \<open>
  The recursive equations are unfolded by hand, one iteration at a time.
\<close>

declare merge_while.simps [simp del] copy_remaining.simps [simp del] mergeSort.simps [simp del]

subsection \<open>Stable sorting of two sorted runs\<close>

lemma sort_key_take_left:
  assumes "sorted (map f (x # xs))" "sorted (map f (y # ys))" "f x \<le> f y"
  shows "sort_key f ((x # xs) @ (y # ys)) = x # sort_key f (xs @ y # ys)"
proof -
  have "\<forall>z \<in> set (xs @ y # ys). f x \<le> f z"
    using assms by (auto intro: order_trans)
  then have "insort_key f x (sort_key f (xs @ y # ys)) = x # sort_key f (xs @ y # ys)"
    by (intro insort_is_Cons) simp
  then show ?thesis by simp
qed

lemma sort_key_front:
  "\<forall>x \<in> set xs. f y < f x \<Longrightarrow> \<forall>z \<in> set ys. f y \<le> f z \<Longrightarrow>
   sort_key f (xs @ y # ys) = y # sort_key f (xs @ ys)"
proof (induction xs)
  case Nil
  then have "insort_key f y (sort_key f ys) = y # sort_key f ys"
    by (intro insort_is_Cons) simp
  then show ?case by simp
next
  case (Cons x xs)
  then have "sort_key f (xs @ y # ys) = y # sort_key f (xs @ ys)" by simp
  moreover have "\<not> f x \<le> f y" using Cons.prems by auto
  ultimately show ?case by simp
qed

lemma sort_key_take_right:
  fixes f :: "'a \<Rightarrow> 'b::linorder"
  assumes "sorted (map f (x # xs))" "sorted (map f (y # ys))" "\<not> f x \<le> f y"
  shows "sort_key f ((x # xs) @ (y # ys)) = y # sort_key f ((x # xs) @ ys)"
proof (rule sort_key_front)
  show "\<forall>z \<in> set (x # xs). f y < f z" using assms by (auto intro: less_le_trans)
  show "\<forall>z \<in> set ys. f y \<le> f z" using assms by auto
qed

lemma sort_key_stable_cong:
  assumes "mset xs = mset ys"
    and "\<And>k. filter (\<lambda>x. f x = k) xs = filter (\<lambda>x. f x = k) ys"
  shows "sort_key f xs = sort_key f ys"
proof (rule properties_for_sort_key)
  show "mset (sort_key f ys) = mset xs" using assms(1) by simp
  show "sorted (map f (sort_key f ys))" by simp
  fix k
  have "filter (\<lambda>x. f x = f k) (sort_key f ys) = filter (\<lambda>x. f x = f k) xs"
    by (simp add: sort_key_stable assms(2))
  moreover have "(\<lambda>x. f k = f x) = (\<lambda>x. f x = f k)" by auto
  ultimately show "filter (\<lambda>x. f k = f x) (sort_key f ys) = filter (\<lambda>x. f k = f x) xs"
    by simp
qed

lemma sort_key_sorted_runs:
  "sort_key f (sort_key f xs @ sort_key f ys) = sort_key f (xs @ ys)"
  by (rule sort_key_stable_cong) (simp_all add: sort_key_stable)

subsection \<open>The iterations of merge\<close>

lemma take_Suc_update: "k < length cs \<Longrightarrow> take (Suc k) (cs[k := v]) = take k cs @ [v]"
  by (simp add: take_Suc_conv_app_nth)

lemma copy_remaining_eq:
  "n = length arr \<Longrightarrow> i \<le> n \<Longrightarrow> k + (n - i) \<le> length cs \<Longrightarrow>
   copy_remaining arr n cs i k = (take k cs @ drop i arr @ drop (k + (n - i)) cs, k + (n - i))"
proof (induction arr n cs i k rule: copy_remaining.induct)
  case (1 arr n cs i k)
  show ?case
  proof (cases "i < n")
    case True
    have k: "k < length cs" using True "1.prems" by arith
    have "copy_remaining arr n (cs[k := arr ! i]) (i + 1) (k + 1)
        = (take (k + 1) (cs[k := arr ! i]) @ drop (i + 1) arr
             @ drop (k + 1 + (n - (i + 1))) (cs[k := arr ! i]), k + 1 + (n - (i + 1)))"
      using True "1.prems" by (intro "1.IH") auto
    moreover have "drop i arr = arr ! i # drop (Suc i) arr"
      using True "1.prems" by (simp add: Cons_nth_drop_Suc)
    moreover have "k + 1 + (n - (i + 1)) = k + (n - i)" using True by arith
    ultimately show ?thesis using True k
      by (subst copy_remaining.simps) (simp add: take_Suc_update)
  next
    case False
    then have "i = n" using "1.prems" by simp
    then show ?thesis using "1.prems" by (subst copy_remaining.simps) simp
  qed
qed

lemma merge_body_done:
  "\<not> (i < n1 \<and> j < n2) \<Longrightarrow>
   merge_body L R n1 n2 cs i j k =
     fst (copy_remaining R n2 (fst (copy_remaining L n1 cs i k)) j
            (snd (copy_remaining L n1 cs i k)))"
proof -
  assume "\<not> (i < n1 \<and> j < n2)"
  then have "merge_while L R n1 n2 cs i j k = (cs, i, j, k)"
    by (subst merge_while.simps) (simp only: if_False)
  then show ?thesis by (simp add: merge_body_def case_prod_beta)
qed

lemma merge_body_left:
  "i < n1 \<Longrightarrow> j < n2 \<Longrightarrow> courseNumber (L ! i) \<le> courseNumber (R ! j) \<Longrightarrow>
   merge_body L R n1 n2 cs i j k = merge_body L R n1 n2 (cs[k := L ! i]) (i + 1) j (k + 1)"
  by (simp add: merge_body_def merge_while.simps[of L R n1 n2 cs i j k])

lemma merge_body_right:
  "i < n1 \<Longrightarrow> j < n2 \<Longrightarrow> \<not> courseNumber (L ! i) \<le> courseNumber (R ! j) \<Longrightarrow>
   merge_body L R n1 n2 cs i j k = merge_body L R n1 n2 (cs[k := R ! j]) i (j + 1) (k + 1)"
  by (simp add: merge_body_def merge_while.simps[of L R n1 n2 cs i j k])

lemma copy_both:
  assumes "n1 = length L" "n2 = length R" "i \<le> n1" "j \<le> n2"
    "k + (n1 - i) + (n2 - j) \<le> length cs"
  shows "fst (copy_remaining R n2 (fst (copy_remaining L n1 cs i k)) j
            (snd (copy_remaining L n1 cs i k)))
       = take k cs @ drop i L @ drop j R @ drop (k + (n1 - i) + (n2 - j)) cs"
proof -
  let ?cs2 = "take k cs @ drop i L @ drop (k + (n1 - i)) cs"
  let ?k2 = "k + (n1 - i)"
  have c1: "copy_remaining L n1 cs i k = (?cs2, ?k2)"
    using assms by (intro copy_remaining_eq) auto
  have len: "length ?cs2 = length cs" using assms by auto
  have c2: "copy_remaining R n2 ?cs2 j ?k2
      = (take ?k2 ?cs2 @ drop j R @ drop (?k2 + (n2 - j)) ?cs2, ?k2 + (n2 - j))"
    using assms len by (intro copy_remaining_eq) auto
  have lk: "length (take k cs @ drop i L) = ?k2" using assms by auto
  have t: "take ?k2 ?cs2 = take k cs @ drop i L"
    using lk by (metis append.assoc append_eq_conv_conj)
  have "drop (?k2 + (n2 - j)) ((take k cs @ drop i L) @ drop ?k2 cs)
      = drop (?k2 + (n2 - j)) cs"
    using lk by (simp only: drop_append) (simp add: add.commute)
  then have d: "drop (?k2 + (n2 - j)) ?cs2 = drop (?k2 + (n2 - j)) cs" by simp
  show ?thesis by (simp only: c1 c2 fst_conv snd_conv t d) simp
qed

lemma merge_body_eq:
  assumes "n1 = length L" "n2 = length R"
    "sorted (map courseNumber L)" "sorted (map courseNumber R)"
    "i \<le> n1" "j \<le> n2" "k + (n1 - i) + (n2 - j) \<le> length cs"
  shows "merge_body L R n1 n2 cs i j k
       = take k cs @ sort_key courseNumber (drop i L @ drop j R)
           @ drop (k + (n1 - i) + (n2 - j)) cs"
  using assms
proof (induction L R n1 n2 cs i j k rule: merge_while.induct)
  case (1 L R n1 n2 cs i j k)
  have sL: "sorted (map courseNumber (drop i L))"
    using sorted_wrt_drop[OF "1.prems"(3), of i] by (simp add: drop_map)
  have sR: "sorted (map courseNumber (drop j R))"
    using sorted_wrt_drop[OF "1.prems"(4), of j] by (simp add: drop_map)
  show ?case
  proof (cases "i < n1 \<and> j < n2")
    case False
    then have "drop i L = [] \<or> drop j R = []" using "1.prems" by auto
    then have "sort_key courseNumber (drop i L @ drop j R) = drop i L @ drop j R"
      using sL sR by (auto simp: sort_key_id_if_sorted)
    moreover have "merge_body L R n1 n2 cs i j k
        = fst (copy_remaining R n2 (fst (copy_remaining L n1 cs i k)) j
                 (snd (copy_remaining L n1 cs i k)))"
      using False by (rule merge_body_done)
    moreover have "\<dots> = take k cs @ drop i L @ drop j R @ drop (k + (n1 - i) + (n2 - j)) cs"
      using "1.prems" by (intro copy_both) auto
    ultimately show ?thesis by simp
  next
    case True
    then have i: "i < n1" and j: "j < n2" by simp_all
    have k: "k < length cs" using i j "1.prems" by arith
    have dL: "drop i L = L ! i # drop (Suc i) L"
      using i "1.prems" by (simp add: Cons_nth_drop_Suc)
    have dR: "drop j R = R ! j # drop (Suc j) R"
      using j "1.prems" by (simp add: Cons_nth_drop_Suc)
    show ?thesis
    proof (cases "courseNumber (L ! i) \<le> courseNumber (R ! j)")
      case le: True
      have "merge_body L R n1 n2 (cs[k := L ! i]) (i + 1) j (k + 1)
          = take (k + 1) (cs[k := L ! i])
              @ sort_key courseNumber (drop (i + 1) L @ drop j R)
              @ drop (k + 1 + (n1 - (i + 1)) + (n2 - j)) (cs[k := L ! i])"
        using True le "1.prems" by (intro "1.IH"(1)) auto
      moreover have "k + 1 + (n1 - (i + 1)) + (n2 - j) = k + (n1 - i) + (n2 - j)"
        using i by arith
      moreover have "sort_key courseNumber (drop i L @ drop j R)
          = L ! i # sort_key courseNumber (drop (Suc i) L @ drop j R)"
        using sort_key_take_left[of courseNumber "L ! i" "drop (Suc i) L" "R ! j" "drop (Suc j) R"]
          sL sR le dL dR by simp
      ultimately show ?thesis
        using i j le k by (simp add: merge_body_left take_Suc_update)
    next
      case gt: False
      have "merge_body L R n1 n2 (cs[k := R ! j]) i (j + 1) (k + 1)
          = take (k + 1) (cs[k := R ! j])
              @ sort_key courseNumber (drop i L @ drop (j + 1) R)
              @ drop (k + 1 + (n1 - i) + (n2 - (j + 1))) (cs[k := R ! j])"
        using True gt "1.prems" by (intro "1.IH"(2)) auto
      moreover have "k + 1 + (n1 - i) + (n2 - (j + 1)) = k + (n1 - i) + (n2 - j)"
        using j by arith
      moreover have "sort_key courseNumber (drop i L @ drop j R)
          = R ! j # sort_key courseNumber (drop i L @ drop (Suc j) R)"
        using sort_key_take_right[of courseNumber "L ! i" "drop (Suc i) L" "R ! j" "drop (Suc j) R"]
          sL sR gt dL dR by simp
      ultimately show ?thesis
        using i j gt k by (simp add: merge_body_right take_Suc_update)
    qed
  qed
qed


subsection \<open>merge and mergeSort on a segment\<close>

lemma merge_segments:
  assumes "sorted (map courseNumber L)" "sorted (map courseNumber R)"
  shows "merge (A @ L @ R @ C) (int (length A)) (int (length A) + int (length L) - 1)
           (int (length A) + int (length L) + int (length R) - 1)
       = Some (A @ sort_key courseNumber (L @ R) @ C)"
proof -
  let ?cs = "A @ L @ R @ C"
  let ?left = "int (length A)"
  let ?mid = "int (length A) + int (length L) - 1"
  let ?right = "int (length A) + int (length L) + int (length R) - 1"
  have n1: "nat (?mid - ?left + 1) = length L" by simp
  have n2: "nat (?right - ?mid) = length R" by simp
  have la: "map (\<lambda>i. ?cs ! nat (?left + int i)) [0..<length L] = L"
    by (rule nth_equalityI) (simp_all add: nth_append nat_add_distrib)
  have "\<And>j. j < length R \<Longrightarrow> ?cs ! nat (?mid + 1 + int j) = R ! j"
  proof -
    fix j assume "j < length R"
    have "nat (?mid + 1 + int j) = length A + (length L + j)" by simp
    then show "?cs ! nat (?mid + 1 + int j) = R ! j"
      using \<open>j < length R\<close> by (simp add: nth_append)
  qed
  then have ra: "map (\<lambda>j. ?cs ! nat (?mid + 1 + int j)) [0..<length R] = R"
    by (intro nth_equalityI) simp_all
  have body: "merge_body L R (length L) (length R) ?cs 0 0 (length A)
      = take (length A) ?cs @ sort_key courseNumber (drop 0 L @ drop 0 R)
          @ drop (length A + (length L - 0) + (length R - 0)) ?cs"
    using assms by (intro merge_body_eq) auto
  have "drop (length A + length L + length R) ?cs = C"
    by (simp add: add.assoc)
  with body have res: "merge_body L R (length L) (length R) ?cs 0 0 (length A)
      = A @ sort_key courseNumber (L @ R) @ C"
    by simp
  have "merge ?cs ?left ?mid ?right
      = Some (merge_body L R (length L) (length R) ?cs 0 0 (length A))"
    unfolding merge_def Let_def n1 n2 la ra
    by (simp add: merge_body_def Let_def case_prod_beta)
  with res show ?thesis by simp
qed

lemma mergeSort_segments:
  "mergeSort (A @ B @ C) (int (length A)) (int (length A) + int (length B) - 1)
     = Some (A @ sort_key courseNumber B @ C)"
proof (induction "length B" arbitrary: A B C rule: less_induct)
  case less
  let ?n = "length B"
  let ?left = "int (length A)"
  let ?right = "int (length A) + int ?n - 1"
  show ?case
  proof (cases "?n \<le> 1")
    case True
    then have "sort_key courseNumber B = B"
      by (cases B) (auto simp: sort_key_id_if_sorted)
    moreover have "\<not> ?left < ?right" using True by simp
    ultimately show ?thesis by (subst mergeSort.simps) simp
  next
    case False
    then have lt: "?left < ?right" by simp
    let ?h = "(?n - 1) div 2 + 1"
    let ?B1 = "take ?h B"
    let ?B2 = "drop ?h B"
    let ?mid = "?left + (?right - ?left) div 2"
    have h: "?h < ?n" "0 < ?h" using False by auto
    have l1: "length ?B1 = ?h" using h by simp
    have l2: "length ?B2 = ?n - ?h" by simp
    have mid: "?mid = ?left + int (length ?B1) - 1"
      using h False by (simp add: l1 zdiv_int)
    have B: "B = ?B1 @ ?B2" by simp
    have s1: "mergeSort (A @ ?B1 @ (?B2 @ C)) ?left (?left + int (length ?B1) - 1)
        = Some (A @ sort_key courseNumber ?B1 @ (?B2 @ C))"
      using h by (intro less) simp
    have tk: "?B1 @ ?B2 @ C = B @ C" by simp
    have first: "mergeSort (A @ B @ C) ?left ?mid
        = Some (A @ sort_key courseNumber ?B1 @ ?B2 @ C)"
      using s1 unfolding tk mid[symmetric] .
    let ?A2 = "A @ sort_key courseNumber ?B1"
    have s2: "mergeSort (?A2 @ ?B2 @ C) (int (length ?A2)) (int (length ?A2) + int (length ?B2) - 1)
        = Some (?A2 @ sort_key courseNumber ?B2 @ C)"
      using h by (intro less) simp
    have i2: "int (length ?A2) = ?mid + 1" using mid by simp
    have r2: "?mid + 1 + int (length ?B2) - 1 = ?right"
      using h mid by (simp add: l1 l2)
    have second: "mergeSort (A @ sort_key courseNumber ?B1 @ ?B2 @ C) (?mid + 1) ?right
        = Some (A @ sort_key courseNumber ?B1 @ sort_key courseNumber ?B2 @ C)"
      using s2 unfolding i2 r2 by (simp only: append_assoc)
    have m: "merge (A @ sort_key courseNumber ?B1 @ sort_key courseNumber ?B2 @ C)
         ?left (?left + int (length (sort_key courseNumber ?B1)) - 1)
         (?left + int (length (sort_key courseNumber ?B1))
            + int (length (sort_key courseNumber ?B2)) - 1)
       = Some (A @ sort_key courseNumber (sort_key courseNumber ?B1 @ sort_key courseNumber ?B2) @ C)"
      by (intro merge_segments) simp_all
    have m1: "?left + int (length (sort_key courseNumber ?B1)) - 1 = ?mid"
      using mid by simp
    have m2: "?left + int (length (sort_key courseNumber ?B1))
            + int (length (sort_key courseNumber ?B2)) - 1 = ?right"
      using h by (simp add: l1 l2)
    have s: "sort_key courseNumber (sort_key courseNumber ?B1 @ sort_key courseNumber ?B2)
        = sort_key courseNumber B"
      by (simp add: sort_key_sorted_runs)
    have third: "merge (A @ sort_key courseNumber ?B1 @ sort_key courseNumber ?B2 @ C)
         ?left ?mid ?right = Some (A @ sort_key courseNumber B @ C)"
      using m unfolding m1 m2 s .
    show ?thesis
      by (subst mergeSort.simps) (simp only: lt if_True first second third option.case)
  qed
qed


lemma mergeSort_range:
  assumes "0 \<le> left" "left \<le> right + 1" "right < int (length courses)"
  shows "mergeSort courses left right
       = Some (take (nat left) courses
               @ sort_key courseNumber (take (nat (right - left + 1)) (drop (nat left) courses))
               @ drop (nat (right + 1)) courses)"
proof -
  let ?A = "take (nat left) courses"
  let ?B = "take (nat (right - left + 1)) (drop (nat left) courses)"
  let ?C = "drop (nat (right + 1)) courses"
  have lA: "int (length ?A) = left" using assms by simp
  have lB: "int (length ?B) = right - left + 1" using assms by simp
  have d: "?C = drop (nat (right - left + 1)) (drop (nat left) courses)"
    using assms by (simp add: nat_add_distrib[symmetric] add.commute)
  have "?B @ ?C = drop (nat left) courses"
    unfolding d by (rule append_take_drop_id)
  then have sp: "?A @ ?B @ ?C = courses"
    by (simp only: append_take_drop_id)
  have r: "left + int (length ?B) - 1 = right" using lB by simp
  have "mergeSort (?A @ ?B @ ?C) (int (length ?A)) (int (length ?A) + int (length ?B) - 1)
      = Some (?A @ sort_key courseNumber ?B @ ?C)"
    by (rule mergeSort_segments)
  then show ?thesis unfolding sp lA r .
qed

lemma mergeSort_whole:
  "mergeSort courses 0 (int (length courses) - 1) = Some (sort_key courseNumber courses)"
  using mergeSort_segments[of "[]" courses "[]"] by simp

text \<open>
  Claim C5. For every vector, \<open>mergeSort\<close> over the indices \<open>0 .. n - 1\<close> returns, and
  the result is non-decreasing by course number in the byte-wise order of strings (no
  case folding), and for every course number the records carrying it appear in the
  same order as in the input.
\<close>

theorem C5_mergeSort_sorted_stable:
  "\<exists>sorted_courses.
      mergeSort courses 0 (int (length courses) - 1) = Some sorted_courses
    \<and> sorted (map courseNumber sorted_courses)
    \<and> (\<forall>k. filter (\<lambda>c. courseNumber c = k) sorted_courses
             = filter (\<lambda>c. courseNumber c = k) courses)"
  by (simp add: mergeSort_whole sort_key_stable)

text \<open>
  Claim C8. Sorting is idempotent: sorting the sorted vector again returns it unchanged.
\<close>

theorem C8_mergeSort_idempotent:
  "\<exists>sorted_courses.
      mergeSort courses 0 (int (length courses) - 1) = Some sorted_courses
    \<and> mergeSort sorted_courses 0 (int (length sorted_courses) - 1) = Some sorted_courses"
proof -
  have idem: "sort_key courseNumber (sort_key courseNumber courses)
      = sort_key courseNumber courses"
    by (simp add: sort_key_id_if_sorted)
  have "mergeSort (sort_key courseNumber courses) 0
          (int (length (sort_key courseNumber courses)) - 1)
      = Some (sort_key courseNumber courses)"
    using mergeSort_whole[of "sort_key courseNumber courses"] by (simp only: idem)
  then show ?thesis by (simp add: mergeSort_whole idem)
qed

text \<open>
  Claim C10. For a range \<open>0 \<le> left \<le> right < n\<close>, \<open>mergeSort\<close> returns a vector of the
  same length in which the records at the positions \<open>left .. right\<close> are a permutation of
  the records that were there, and every position outside the range is unchanged.
\<close>

theorem C10_mergeSort_permutes_range:
  assumes "0 \<le> left" "left \<le> right" "right < int (length courses)"
  shows "\<exists>result.
      mergeSort courses left right = Some result
    \<and> length result = length courses
    \<and> mset (take (nat (right - left + 1)) (drop (nat left) result))
        = mset (take (nat (right - left + 1)) (drop (nat left) courses))
    \<and> (\<forall>i < length courses. int i < left \<or> right < int i \<longrightarrow> result ! i = courses ! i)"
proof -
  let ?A = "take (nat left) courses"
  let ?B = "take (nat (right - left + 1)) (drop (nat left) courses)"
  let ?C = "drop (nat (right + 1)) courses"
  let ?res = "?A @ sort_key courseNumber ?B @ ?C"
  have ms: "mergeSort courses left right = Some ?res"
    using assms by (intro mergeSort_range) auto
  have lA: "length ?A = nat left" using assms by simp
  have lB: "length ?B = nat (right - left + 1)" using assms by simp
  have d: "?C = drop (nat (right - left + 1)) (drop (nat left) courses)"
    using assms by (simp add: nat_add_distrib[symmetric] add.commute)
  have "?B @ ?C = drop (nat left) courses"
    unfolding d by (rule append_take_drop_id)
  then have sp: "?A @ ?B @ ?C = courses"
    by (simp only: append_take_drop_id)
  have "length ?res = length (?A @ ?B @ ?C)" by simp
  then have len: "length ?res = length courses" unfolding sp .
  have seg: "take (nat (right - left + 1)) (drop (nat left) ?res) = sort_key courseNumber ?B"
    using lA lB by simp
  have out: "?res ! i = courses ! i" if "i < length courses" "int i < left \<or> right < int i" for i
  proof (cases "int i < left")
    case True
    then have "i < length ?A" using lA by simp
    then have "?res ! i = ?A ! i" by (simp add: nth_append)
    also have "\<dots> = courses ! i" using True by simp
    finally show ?thesis .
  next
    case False
    then have r: "right < int i" using that by simp
    define m where "m = i - (nat left + nat (right - left + 1))"
    have i: "i = length ?A + (length (sort_key courseNumber ?B) + m)"
      using r assms lA lB by (simp add: m_def)
    have i': "i = length ?A + (length ?B + m)"
      using i by simp
    have "?res ! i = ?C ! m" by (subst i) (simp only: nth_append_length_plus)
    also have "\<dots> = (?A @ ?B @ ?C) ! i" by (subst i') (simp only: nth_append_length_plus)
    also have "\<dots> = courses ! i" unfolding sp ..
    finally show ?thesis .
  qed
  from ms len seg out show ?thesis by simp
qed

theorem C10_mergeSort_permutes_range_witness:
  "(0::int) \<le> 1 \<and> (1::int) \<le> 3 \<and> 3 < int (length sort_example)
   \<and> mergeSort sort_example 1 3
       = Some [sort_example ! 0, sort_example ! 2, sort_example ! 3, sort_example ! 1,
               sort_example ! 4]
   \<and> (\<exists>result.
         mergeSort sort_example 1 3 = Some result
       \<and> length result = length sort_example
       \<and> mset (take (nat (3 - 1 + 1)) (drop (nat 1) result))
           = mset (take (nat (3 - 1 + 1)) (drop (nat 1) sort_example))
       \<and> (\<forall>i < length sort_example. int i < 1 \<or> 3 < int i \<longrightarrow> result ! i = sort_example ! i))"
proof -
  have h1: "(0::int) \<le> 1" by simp
  have h2: "(1::int) \<le> 3" by simp
  have h3: "3 < int (length sort_example)" by (simp add: sort_example_def)
  have ev: "mergeSort sort_example 1 3
       = Some [sort_example ! 0, sort_example ! 2, sort_example ! 3, sort_example ! 1,
               sort_example ! 4]"
    by code_simp
  from C10_mergeSort_permutes_range [OF h1 h2 h3] h1 h2 h3 ev show ?thesis
    by (intro conjI) assumption+
qed

end
